theory Spec2Isabelle
  imports Main
begin

section \<open>The environment of \<open>file_mutex\<close>: file system, handles, advisory locks\<close>

text \<open>
  \<open>file_mutex.hpp\<close> is written against collaborators that it includes and does not
  define: \<open>boost::filesystem\<close> (paths, \<open>remove\<close>, \<open>ofstream\<close>),
  \<open>boost::interprocess::file_lock\<close>, and the operating system behind both. This
  section models them; the class itself follows in the next section, member by member.

  A path is the character string \<open>filesystem::path\<close> stores. The operating system
  takes paths as C strings, so a path holds no NUL character and
  \<open>lock_path.string().c_str()\<close> denotes the same path as \<open>lock_path\<close>.
\<close>

type_synonym path = string

type_synonym file_handle_t = nat

text \<open>
  The two exceptions the header names (\<open>interprocess_exception\<close>, and what
  \<open>filesystem::remove\<close> throws), and the violation of a precondition, which the
  language leaves undefined.
\<close>

datatype error = interprocess_exception | filesystem_error | precondition_violation

datatype lock_mode = Exclusive | Sharable

text \<open>
  Modelled from the spec: the advisory lock table of the host, which is not under src/.
  One entry is one claim: the handle through which it is held, its mode, and, for a claim
  of another party, the instant at which that party gives it up (\<open>None\<close>: held until
  its holder unlocks or closes the handle, as the claims of this program are).
\<close>

record lock_claim =
  holder :: file_handle_t
  mode :: lock_mode
  held_until :: "nat option"

text \<open>
  Modelled from the spec: the host, which is not under src/. It has the regular files with
  their contents, the paths on which it refuses to create, open or delete a file
  (``permission denied'' and the like), the table of open handles, the next handle it
  hands out, the advisory lock table and the wall clock.
\<close>

record os_state =
  files :: "path \<rightharpoonup> string"
  denied :: "path set"
  handles :: "file_handle_t \<rightharpoonup> path"
  next_handle :: file_handle_t
  locks :: "lock_claim list"
  now :: nat

text \<open>
  Modelled from the spec: opening a file on the host, which is not under src/. It gives a
  handle that was not handed out before.
\<close>

definition open_handle :: "path \<Rightarrow> os_state \<Rightarrow> file_handle_t \<times> os_state" where
  "open_handle p os =
     (let h = next_handle os
      in (h, os\<lparr>handles := (handles os)(h \<mapsto> p), next_handle := Suc h\<rparr>))"

text \<open>
  Modelled from the spec: closing a handle on the host, which is not under src/. The handle
  leaves the table together with the claims held through it (``destruction releases any
  still-held claim implicitly''); the file stays.
\<close>

definition close_file :: "file_handle_t \<Rightarrow> os_state \<Rightarrow> os_state" where
  "close_file h os =
     os\<lparr>handles := (handles os)(h := None),
        locks := filter (\<lambda>c. holder c \<noteq> h) (locks os)\<rparr>"

subsection \<open>\<open>boost::filesystem\<close>\<close>

text \<open>
  Modelled from the spec: \<open>boost::filesystem::remove\<close>, which is not under src/.
  ``Returns false if the file did not exist, true if it was removed. Fails with a
  filesystem error on I/O failure other than non-existence.''
\<close>

definition filesystem_remove :: "path \<Rightarrow> os_state \<Rightarrow> (error + bool) \<times> os_state" where
  "filesystem_remove p os =
     (case files os p of
        None \<Rightarrow> (Inr False, os)
      | Some c \<Rightarrow>
          if p \<in> denied os then (Inl filesystem_error, os)
          else (Inr True, os\<lparr>files := (files os)(p := None)\<rparr>))"

text \<open>
  Modelled from the spec: \<open>boost::filesystem::ofstream\<close>, which is not under src/. Opening
  for output creates a missing file; with \<open>ios_app\<close> (\<open>ofstream::app\<close>) an existing
  file keeps its contents, with the plain output mode \<open>ios_out\<close> it is truncated. A stream
  that cannot be opened is left in a failed state without raising.
\<close>

datatype openmode = ios_app | ios_out

definition ofstream_open :: "path \<Rightarrow> openmode \<Rightarrow> os_state \<Rightarrow> file_handle_t option \<times> os_state" where
  "ofstream_open p m os =
     (if p \<in> denied os then (None, os)
      else
        let c = (case files os p of
                   None \<Rightarrow> []
                 | Some old \<Rightarrow> (case m of ios_app \<Rightarrow> old | ios_out \<Rightarrow> []));
            (h, os') = open_handle p (os\<lparr>files := (files os)(p \<mapsto> c)\<rparr>)
        in (Some h, os'))"

text \<open>
  Modelled from the spec: the destructor of the stream, which is not under src/. It closes
  the stream if it was opened (``immediately closed after creation'').
\<close>

definition ofstream_close :: "file_handle_t option \<Rightarrow> os_state \<Rightarrow> os_state" where
  "ofstream_close s os = (case s of None \<Rightarrow> os | Some h \<Rightarrow> close_file h os)"

subsection \<open>\<open>boost::interprocess::file_lock\<close>\<close>

text \<open>
  Modelled from the spec: the class \<open>file_lock\<close> of \<open>boost/interprocess/sync/file_lock.hpp\<close>,
  which is not under src/. It owns one handle; \<open>None\<close> is the invalid handle of an empty
  instance.
\<close>

record file_lock =
  m_file_hnd :: "file_handle_t option"

text \<open>
  Modelled from the spec: the default constructor of \<open>file_lock\<close>, which is not under
  src/. ``Default construction produces an empty instance that owns nothing.''
\<close>

definition file_lock_default :: file_lock where
  "file_lock_default = \<lparr>m_file_hnd = None\<rparr>"

text \<open>
  Modelled from the spec: the constructor \<open>file_lock(const char *name)\<close>, which is not
  under src/. It opens the existing file \<open>name\<close> and owns the handle; it ``fails with a
  resource-acquisition error if the file cannot be opened or the OS lock handle cannot be
  obtained'', which in the header's words is \<open>interprocess_exception\<close>.
\<close>

definition file_lock_ctor :: "path \<Rightarrow> os_state \<Rightarrow> (error + file_lock) \<times> os_state" where
  "file_lock_ctor name os =
     (if files os name \<noteq> None \<and> name \<notin> denied os
      then (let (h, os') = open_handle name os in (Inr \<lparr>m_file_hnd = Some h\<rparr>, os'))
      else (Inl interprocess_exception, os))"

text \<open>
  Modelled from the spec: the destructor of \<open>file_lock\<close>, which is not under src/.
  ``Destruction releases the OS handle (closing, not deleting, the lock file)''; an empty
  instance has nothing to release.
\<close>

definition file_lock_dtor :: "file_lock \<Rightarrow> os_state \<Rightarrow> os_state" where
  "file_lock_dtor fl os = (case m_file_hnd fl of None \<Rightarrow> os | Some h \<Rightarrow> close_file h os)"

text \<open>
  Modelled from the spec: a claim counts while its holder has not given it up.
\<close>

definition active :: "lock_claim \<Rightarrow> nat \<Rightarrow> bool" where
  "active c t = (case held_until c of None \<Rightarrow> True | Some r \<Rightarrow> t < r)"

text \<open>
  Modelled from the spec: when a request has to wait. ``Exclusive excludes everyone;
  sharable excludes only exclusive'': a request through \<open>h\<close> conflicts with a claim that
  counts, is held through another handle on the same file, and is exclusive or meets an
  exclusive request.
\<close>

definition conflicts :: "os_state \<Rightarrow> file_handle_t \<Rightarrow> lock_mode \<Rightarrow> bool" where
  "conflicts os h m =
     list_ex (\<lambda>c. holder c \<noteq> h \<and> handles os (holder c) = handles os h \<and>
                  active c (now os) \<and> (m = Exclusive \<or> mode c = Exclusive))
             (locks os)"

text \<open>
  Modelled from the spec: granting ``marks ownership held'', in place of whatever the
  handle held before.
\<close>

definition grant :: "os_state \<Rightarrow> file_handle_t \<Rightarrow> lock_mode \<Rightarrow> os_state" where
  "grant os h m =
     os\<lparr>locks := \<lparr>holder = h, mode = m, held_until = None\<rparr> #
                  filter (\<lambda>c. holder c \<noteq> h) (locks os)\<rparr>"

text \<open>Modelled from the spec: releasing drops the claim held through the handle.\<close>

definition release :: "os_state \<Rightarrow> file_handle_t \<Rightarrow> os_state" where
  "release os h = os\<lparr>locks := filter (\<lambda>c. holder c \<noteq> h) (locks os)\<rparr>"

text \<open>
  Modelled from the spec: holding exclusive, or sharable, ownership through a handle.
\<close>

definition owns :: "os_state \<Rightarrow> file_handle_t \<Rightarrow> lock_mode \<Rightarrow> bool" where
  "owns os h m =
     list_ex (\<lambda>c. holder c = h \<and> mode c = m \<and> active c (now os)) (locks os)"

text \<open>Modelled from the spec: the wall clock moves on by one instant.\<close>

definition tick :: "os_state \<Rightarrow> os_state" where
  "tick os = os\<lparr>now := Suc (now os)\<rparr>"

text \<open>
  Modelled from the spec: the handle a locking call goes through. Calling on an empty
  instance violates the precondition; a handle the host does not know makes the call fail
  at the OS level.
\<close>

definition with_handle :: "file_lock \<Rightarrow> os_state \<Rightarrow> error + file_handle_t" where
  "with_handle fl os =
     (case m_file_hnd fl of
        None \<Rightarrow> Inl precondition_violation
      | Some h \<Rightarrow> if handles os h = None then Inl interprocess_exception else Inr h)"

text \<open>
  Modelled from the spec: blocking acquisition ``blocks the calling thread until no other
  process/thread holds'' a conflicting ownership, ``then marks ownership held''. It waits
  instant after instant, and it need not return: a conflicting claim that is never given
  up blocks it for ever.
\<close>

partial_function (option) wait_acquire :: "file_handle_t \<Rightarrow> lock_mode \<Rightarrow> os_state \<Rightarrow> os_state option" where
  "wait_acquire h m os =
     (if conflicts os h m then wait_acquire h m (tick os) else Some (grant os h m))"

text \<open>
  Modelled from the spec: timed acquisition ``returns true if acquired before the
  deadline; returns false if the deadline elapses first. Must not acquire ownership and
  then report false.''
\<close>

function timed_acquire :: "file_handle_t \<Rightarrow> lock_mode \<Rightarrow> nat \<Rightarrow> os_state \<Rightarrow> bool \<times> os_state" where
  "timed_acquire h m abs_time os =
     (if abs_time \<le> now os then (False, os)
      else if conflicts os h m then timed_acquire h m abs_time (tick os)
      else (True, grant os h m))"
  by pat_completeness auto
termination
  by (relation "measure (\<lambda>(h, m, abs_time, os). abs_time - now os)") (auto simp: tick_def)

declare timed_acquire.simps [simp del]

text \<open>
  Modelled from the spec: the attempt without waiting ``returns true and holds ownership
  if immediately available; returns false (no ownership change) if another holder
  exists.''
\<close>

definition try_acquire :: "file_handle_t \<Rightarrow> lock_mode \<Rightarrow> os_state \<Rightarrow> bool \<times> os_state" where
  "try_acquire h m os = (if conflicts os h m then (False, os) else (True, grant os h m))"

text \<open>
  Modelled from the spec: \<open>file_lock::lock\<close> and \<open>lock_sharable\<close>, which are not
  under src/, by mode. ``Fails with a locking error on OS-level failure (not on
  contention: contention causes blocking, not failure).''
\<close>

definition file_lock_acquire :: "lock_mode \<Rightarrow> file_lock \<Rightarrow> os_state \<Rightarrow> ((error + unit) \<times> os_state) option" where
  "file_lock_acquire m fl os =
     (case with_handle fl os of
        Inl e \<Rightarrow> Some (Inl e, os)
      | Inr h \<Rightarrow> map_option (\<lambda>os'. (Inr (), os')) (wait_acquire h m os))"

text \<open>
  Modelled from the spec: \<open>file_lock::try_lock\<close> and \<open>try_lock_sharable\<close>, which are
  not under src/, by mode.
\<close>

definition file_lock_try_acquire :: "lock_mode \<Rightarrow> file_lock \<Rightarrow> os_state \<Rightarrow> (error + bool) \<times> os_state" where
  "file_lock_try_acquire m fl os =
     (case with_handle fl os of
        Inl e \<Rightarrow> (Inl e, os)
      | Inr h \<Rightarrow> (let (r, os') = try_acquire h m os in (Inr r, os')))"

text \<open>
  Modelled from the spec: \<open>file_lock::timed_lock\<close> and \<open>timed_lock_sharable\<close>, which
  are not under src/, by mode. The deadline is an instant of the wall clock.
\<close>

definition file_lock_timed_acquire :: "lock_mode \<Rightarrow> file_lock \<Rightarrow> nat \<Rightarrow> os_state \<Rightarrow> (error + bool) \<times> os_state" where
  "file_lock_timed_acquire m fl abs_time os =
     (case with_handle fl os of
        Inl e \<Rightarrow> (Inl e, os)
      | Inr h \<Rightarrow> (let (r, os') = timed_acquire h m abs_time os in (Inr r, os')))"

text \<open>
  Modelled from the spec: \<open>file_lock::unlock\<close> and \<open>unlock_sharable\<close>, which are not
  under src/, by mode. ``Precondition: caller holds'' the ownership it releases.
\<close>

definition file_lock_release :: "lock_mode \<Rightarrow> file_lock \<Rightarrow> os_state \<Rightarrow> (error + unit) \<times> os_state" where
  "file_lock_release m fl os =
     (case with_handle fl os of
        Inl e \<Rightarrow> (Inl e, os)
      | Inr h \<Rightarrow>
          if owns os h m then (Inr (), release os h)
          else (Inl precondition_violation, os))"

text \<open>Modelled from the spec: the eight locking members of \<open>file_lock\<close> by name.\<close>

definition file_lock_lock :: "file_lock \<Rightarrow> os_state \<Rightarrow> ((error + unit) \<times> os_state) option" where
  "file_lock_lock = file_lock_acquire Exclusive"

definition file_lock_try_lock :: "file_lock \<Rightarrow> os_state \<Rightarrow> (error + bool) \<times> os_state" where
  "file_lock_try_lock = file_lock_try_acquire Exclusive"

definition file_lock_timed_lock :: "file_lock \<Rightarrow> nat \<Rightarrow> os_state \<Rightarrow> (error + bool) \<times> os_state" where
  "file_lock_timed_lock = file_lock_timed_acquire Exclusive"

definition file_lock_unlock :: "file_lock \<Rightarrow> os_state \<Rightarrow> (error + unit) \<times> os_state" where
  "file_lock_unlock = file_lock_release Exclusive"

definition file_lock_lock_sharable :: "file_lock \<Rightarrow> os_state \<Rightarrow> ((error + unit) \<times> os_state) option" where
  "file_lock_lock_sharable = file_lock_acquire Sharable"

definition file_lock_try_lock_sharable :: "file_lock \<Rightarrow> os_state \<Rightarrow> (error + bool) \<times> os_state" where
  "file_lock_try_lock_sharable = file_lock_try_acquire Sharable"

definition file_lock_timed_lock_sharable :: "file_lock \<Rightarrow> nat \<Rightarrow> os_state \<Rightarrow> (error + bool) \<times> os_state" where
  "file_lock_timed_lock_sharable = file_lock_timed_acquire Sharable"

definition file_lock_unlock_sharable :: "file_lock \<Rightarrow> os_state \<Rightarrow> (error + unit) \<times> os_state" where
  "file_lock_unlock_sharable = file_lock_release Sharable"

section \<open>The class \<open>file_mutex\<close>\<close>

record file_mutex =
  m_file_lock :: file_lock

text \<open>\<open>file_mutex() {}\<close>: the member is default-constructed.\<close>

definition file_mutex_default :: file_mutex where
  "file_mutex_default = \<lparr>m_file_lock = file_lock_default\<rparr>"

text \<open>\<open>return file_path += suffix;\<close>: \<open>path::operator+=\<close> appends with no separator.\<close>

definition build_file_lock_path :: "path \<Rightarrow> path \<Rightarrow> path" where
  "build_file_lock_path file_path suffix = file_path @ suffix"

text \<open>
  \<open>filesystem::ofstream(lock_path, filesystem::ofstream::app);\<close> is a temporary: the
  stream is opened and, at the end of the statement, destroyed, which closes it. Then
  \<open>return file_lock(lock_path.string().c_str());\<close>
\<close>

definition create_file_lock :: "path \<Rightarrow> os_state \<Rightarrow> (error + file_lock) \<times> os_state" where
  "create_file_lock lock_path os =
     (let (s, os1) = ofstream_open lock_path ios_app os;
          os2 = ofstream_close s os1
      in file_lock_ctor lock_path os2)"

text \<open>
  \<open>file_mutex(const filesystem::path &path, const filesystem::path &suffix = ".lock")
  : m_file_lock(create_file_lock(build_file_lock_path(path, suffix))) {}\<close>: an exception
  of the member's construction leaves the constructor, and no object exists.
\<close>

definition file_mutex_ctor :: "path \<Rightarrow> path \<Rightarrow> os_state \<Rightarrow> (error + file_mutex) \<times> os_state" where
  "file_mutex_ctor p suffix os =
     (case create_file_lock (build_file_lock_path p suffix) os of
        (Inl e, os') \<Rightarrow> (Inl e, os')
      | (Inr fl, os') \<Rightarrow> (Inr \<lparr>m_file_lock = fl\<rparr>, os'))"


text \<open>
  The locking members, each one statement: \<open>void lock() { m_file_lock.lock(); }\<close>,
  \<open>bool try_lock() { return m_file_lock.try_lock(); }\<close>,
  \<open>bool timed_lock(abs_time) { return m_file_lock.timed_lock(abs_time); }\<close>,
  \<open>void unlock() { m_file_lock.unlock(); }\<close>, and the four \<open>_sharable\<close> members
  alike. A blocking member may never return, which is the value \<open>None\<close>.
\<close>

definition file_mutex_lock :: "file_mutex \<Rightarrow> os_state \<Rightarrow> ((error + unit) \<times> os_state) option" where
  "file_mutex_lock fm os = file_lock_lock (m_file_lock fm) os"

definition file_mutex_try_lock :: "file_mutex \<Rightarrow> os_state \<Rightarrow> (error + bool) \<times> os_state" where
  "file_mutex_try_lock fm os = file_lock_try_lock (m_file_lock fm) os"

definition file_mutex_timed_lock :: "file_mutex \<Rightarrow> nat \<Rightarrow> os_state \<Rightarrow> (error + bool) \<times> os_state" where
  "file_mutex_timed_lock fm abs_time os = file_lock_timed_lock (m_file_lock fm) abs_time os"

definition file_mutex_unlock :: "file_mutex \<Rightarrow> os_state \<Rightarrow> (error + unit) \<times> os_state" where
  "file_mutex_unlock fm os = file_lock_unlock (m_file_lock fm) os"

definition file_mutex_lock_sharable :: "file_mutex \<Rightarrow> os_state \<Rightarrow> ((error + unit) \<times> os_state) option" where
  "file_mutex_lock_sharable fm os = file_lock_lock_sharable (m_file_lock fm) os"

definition file_mutex_try_lock_sharable :: "file_mutex \<Rightarrow> os_state \<Rightarrow> (error + bool) \<times> os_state" where
  "file_mutex_try_lock_sharable fm os = file_lock_try_lock_sharable (m_file_lock fm) os"

definition file_mutex_timed_lock_sharable :: "file_mutex \<Rightarrow> nat \<Rightarrow> os_state \<Rightarrow> (error + bool) \<times> os_state" where
  "file_mutex_timed_lock_sharable fm abs_time os =
     file_lock_timed_lock_sharable (m_file_lock fm) abs_time os"

definition file_mutex_unlock_sharable :: "file_mutex \<Rightarrow> os_state \<Rightarrow> (error + unit) \<times> os_state" where
  "file_mutex_unlock_sharable fm os = file_lock_unlock_sharable (m_file_lock fm) os"

text \<open>\<open>static bool remove(const filesystem::path &path) { return filesystem::remove(path); }\<close>\<close>

definition file_mutex_remove :: "path \<Rightarrow> os_state \<Rightarrow> (error + bool) \<times> os_state" where
  "file_mutex_remove p os = filesystem_remove p os"

subsection \<open>Objects: move, swap, destruction\<close>

text \<open>
  Moving and swapping act on two objects, which may be one and the same, so the instances
  live in a store. A program names its objects \<open>Obj n\<close>; \<open>Temp\<close> is the local
  \<open>tmp\<close> of the move assignment.
\<close>

datatype addr = Obj nat | Temp

type_synonym store = "addr \<rightharpoonup> file_mutex"

record program_state =
  objs :: store
  host :: os_state

definition get_hnd :: "store \<Rightarrow> addr \<Rightarrow> file_handle_t option" where
  "get_hnd s a = (case s a of None \<Rightarrow> None | Some fm \<Rightarrow> m_file_hnd (m_file_lock fm))"

definition put_hnd :: "addr \<Rightarrow> file_handle_t option \<Rightarrow> store \<Rightarrow> store" where
  "put_hnd a v s =
     (case s a of
        None \<Rightarrow> s
      | Some fm \<Rightarrow> s(a \<mapsto> fm\<lparr>m_file_lock := (m_file_lock fm)\<lparr>m_file_hnd := v\<rparr>\<rparr>))"

text \<open>
  Modelled from the spec: \<open>file_lock::swap\<close>, which is not under src/; it exchanges the
  two handles through a local: \<open>tmp = m_file_hnd; m_file_hnd = other.m_file_hnd;
  other.m_file_hnd = tmp;\<close>
\<close>

definition file_lock_swap :: "addr \<Rightarrow> addr \<Rightarrow> store \<Rightarrow> store" where
  "file_lock_swap this other s =
     (let tmp = get_hnd s this;
          s1 = put_hnd this (get_hnd s other) s;
          s2 = put_hnd other tmp s1
      in s2)"

text \<open>\<open>void swap(file_mutex &other) { m_file_lock.swap(other.m_file_lock); }\<close>\<close>

definition file_mutex_swap :: "addr \<Rightarrow> addr \<Rightarrow> store \<Rightarrow> store" where
  "file_mutex_swap this other s = file_lock_swap this other s"

text \<open>
  \<open>file_mutex(BOOST_RV_REF(file_mutex) moved) { this->swap(moved); }\<close>: the member of
  the new object is default-constructed, then swapped with the source's.
\<close>

definition file_mutex_move_ctor :: "addr \<Rightarrow> addr \<Rightarrow> store \<Rightarrow> store" where
  "file_mutex_move_ctor this moved s =
     file_mutex_swap this moved (s(this \<mapsto> file_mutex_default))"

text \<open>The destructor is implicit: it destroys the member, which closes a valid handle.\<close>

definition file_mutex_dtor :: "addr \<Rightarrow> program_state \<Rightarrow> program_state" where
  "file_mutex_dtor this st =
     (case objs st this of
        None \<Rightarrow> st
      | Some fm \<Rightarrow>
          \<lparr>objs = (objs st)(this := None), host = file_lock_dtor (m_file_lock fm) (host st)\<rparr>)"

text \<open>
  \<open>file_mutex tmp(boost::move(moved)); this->swap(tmp); return *this;\<close> and \<open>tmp\<close>
  is destroyed on return.
\<close>

definition file_mutex_move_assign :: "addr \<Rightarrow> addr \<Rightarrow> program_state \<Rightarrow> program_state" where
  "file_mutex_move_assign this moved st =
     (let s1 = file_mutex_move_ctor Temp moved (objs st);
          s2 = file_mutex_swap this Temp s1
      in file_mutex_dtor Temp (st\<lparr>objs := s2\<rparr>))"

subsection \<open>Programs over the class\<close>

text \<open>
  What a client can do with the class. There is no copy: \<open>BOOST_MOVABLE_BUT_NOT_COPYABLE\<close>
  removes the copy constructor and the copy assignment.
\<close>

datatype request =
    Req_lock | Req_try_lock | Req_timed_lock nat | Req_unlock
  | Req_lock_sharable | Req_try_lock_sharable | Req_timed_lock_sharable nat
  | Req_unlock_sharable

datatype op =
    Default_construct nat
  | Construct nat path path
  | Move_construct nat nat
  | Move_assign nat nat
  | Swap nat nat
  | Call nat request
  | Destroy nat
  | Remove path

datatype outcome = Done | Returned bool | Raised error

definition of_unit :: "(error + unit) \<times> os_state \<Rightarrow> outcome \<times> os_state" where
  "of_unit r = (case r of (Inl e, os) \<Rightarrow> (Raised e, os) | (Inr u, os) \<Rightarrow> (Done, os))"

definition of_bool :: "(error + bool) \<times> os_state \<Rightarrow> outcome \<times> os_state" where
  "of_bool r = (case r of (Inl e, os) \<Rightarrow> (Raised e, os) | (Inr b, os) \<Rightarrow> (Returned b, os))"

fun file_mutex_call :: "request \<Rightarrow> file_mutex \<Rightarrow> os_state \<Rightarrow> (outcome \<times> os_state) option" where
  "file_mutex_call Req_lock fm os = map_option of_unit (file_mutex_lock fm os)"
| "file_mutex_call Req_try_lock fm os = Some (of_bool (file_mutex_try_lock fm os))"
| "file_mutex_call (Req_timed_lock t) fm os = Some (of_bool (file_mutex_timed_lock fm t os))"
| "file_mutex_call Req_unlock fm os = Some (of_unit (file_mutex_unlock fm os))"
| "file_mutex_call Req_lock_sharable fm os = map_option of_unit (file_mutex_lock_sharable fm os)"
| "file_mutex_call Req_try_lock_sharable fm os = Some (of_bool (file_mutex_try_lock_sharable fm os))"
| "file_mutex_call (Req_timed_lock_sharable t) fm os =
     Some (of_bool (file_mutex_timed_lock_sharable fm t os))"
| "file_mutex_call Req_unlock_sharable fm os = Some (of_unit (file_mutex_unlock_sharable fm os))"

text \<open>
  One step of a program. Using an object that does not exist, or constructing one where
  an object lives, is outside the language: the step reports it and changes nothing.
  \<open>None\<close> is a blocking call that never returns.
\<close>

definition live :: "program_state \<Rightarrow> nat \<Rightarrow> bool" where
  "live st a = (objs st (Obj a) \<noteq> None)"

fun exec :: "op \<Rightarrow> program_state \<Rightarrow> (outcome \<times> program_state) option" where
  "exec (Default_construct a) st =
     (if live st a then Some (Raised precondition_violation, st)
      else Some (Done, st\<lparr>objs := (objs st)(Obj a \<mapsto> file_mutex_default)\<rparr>))"
| "exec (Construct a p suffix) st =
     (if live st a then Some (Raised precondition_violation, st)
      else (case file_mutex_ctor p suffix (host st) of
              (Inl e, os') \<Rightarrow> Some (Raised e, st\<lparr>host := os'\<rparr>)
            | (Inr fm, os') \<Rightarrow> Some (Done, \<lparr>objs = (objs st)(Obj a \<mapsto> fm), host = os'\<rparr>)))"
| "exec (Move_construct a b) st =
     (if live st a \<or> \<not> live st b then Some (Raised precondition_violation, st)
      else Some (Done, st\<lparr>objs := file_mutex_move_ctor (Obj a) (Obj b) (objs st)\<rparr>))"
| "exec (Move_assign a b) st =
     (if \<not> live st a \<or> \<not> live st b then Some (Raised precondition_violation, st)
      else Some (Done, file_mutex_move_assign (Obj a) (Obj b) st))"
| "exec (Swap a b) st =
     (if \<not> live st a \<or> \<not> live st b then Some (Raised precondition_violation, st)
      else Some (Done, st\<lparr>objs := file_mutex_swap (Obj a) (Obj b) (objs st)\<rparr>))"
| "exec (Call a rq) st =
     (case objs st (Obj a) of
        None \<Rightarrow> Some (Raised precondition_violation, st)
      | Some fm \<Rightarrow>
          map_option (\<lambda>(r, os'). (r, st\<lparr>host := os'\<rparr>)) (file_mutex_call rq fm (host st)))"
| "exec (Destroy a) st =
     (if \<not> live st a then Some (Raised precondition_violation, st)
      else Some (Done, file_mutex_dtor (Obj a) st))"
| "exec (Remove p) st =
     (case of_bool (file_mutex_remove p (host st)) of (r, os') \<Rightarrow> Some (r, st\<lparr>host := os'\<rparr>))"

fun run :: "op list \<Rightarrow> program_state \<Rightarrow> program_state option" where
  "run [] st = Some st"
| "run (x # xs) st = (case exec x st of None \<Rightarrow> None | Some (r, st') \<Rightarrow> run xs st')"

text \<open>
  The ownership invariant: no handle is owned by two objects, every owned handle is open,
  the host has handed out every open handle, and no temporary is left over.
\<close>

definition single_owner :: "program_state \<Rightarrow> bool" where
  "single_owner st =
     (\<forall>a b h. get_hnd (objs st) a = Some h \<and> get_hnd (objs st) b = Some h \<longrightarrow> a = b)"

definition owned_open :: "program_state \<Rightarrow> bool" where
  "owned_open st = (\<forall>a h. get_hnd (objs st) a = Some h \<longrightarrow> handles (host st) h \<noteq> None)"

definition handles_issued :: "os_state \<Rightarrow> bool" where
  "handles_issued os = (\<forall>h. handles os h \<noteq> None \<longrightarrow> h < next_handle os)"

definition ownership_inv :: "program_state \<Rightarrow> bool" where
  "ownership_inv st =
     (single_owner st \<and> owned_open st \<and> handles_issued (host st) \<and> objs st Temp = None)"

text \<open>Concrete hosts and programs for the examples below.\<close>

definition host0 :: os_state where
  "host0 = \<lparr>files = [''data'' \<mapsto> ''payload'', ''data.lock'' \<mapsto> ''''],
            denied = {''ro.lock''},
            handles = Map.empty, next_handle = 0, locks = [], now = 0\<rparr>"

definition start :: program_state where
  "start = \<lparr>objs = Map.empty, host = host0\<rparr>"

text \<open>
  A host on which another party holds the lock file exclusively through handle 7 until
  instant 5, and an instance that owns the open handle 0 on the same file.
\<close>

definition host1 :: os_state where
  "host1 = \<lparr>files = [''data.lock'' \<mapsto> []], denied = {},
            handles = [0 \<mapsto> ''data.lock'', 7 \<mapsto> ''data.lock''], next_handle = 8,
            locks = [\<lparr>holder = 7, mode = Exclusive, held_until = Some 5\<rparr>], now = 0\<rparr>"

definition fm1 :: file_mutex where
  "fm1 = \<lparr>m_file_lock = \<lparr>m_file_hnd = Some 0\<rparr>\<rparr>"

definition one :: program_state where
  "one = \<lparr>objs = [Obj 0 \<mapsto> fm1], host = host1\<rparr>"

text \<open>Two instances on two lock files; the second holds its file exclusively.\<close>

definition host2 :: os_state where
  "host2 = \<lparr>files = [''data.lock'' \<mapsto> [], ''log.lock'' \<mapsto> []], denied = {},
            handles = [1 \<mapsto> ''data.lock'', 3 \<mapsto> ''log.lock''], next_handle = 4,
            locks = [\<lparr>holder = 3, mode = Exclusive, held_until = None\<rparr>], now = 0\<rparr>"

definition fm_a :: file_mutex where
  "fm_a = \<lparr>m_file_lock = \<lparr>m_file_hnd = Some 1\<rparr>\<rparr>"

definition fm_b :: file_mutex where
  "fm_b = \<lparr>m_file_lock = \<lparr>m_file_hnd = Some 3\<rparr>\<rparr>"

definition two :: program_state where
  "two = \<lparr>objs = [Obj 0 \<mapsto> fm_a, Obj 1 \<mapsto> fm_b], host = host2\<rparr>"

definition session :: "op list" where
  "session =
     [Construct 0 ''data'' ''.lock'', Construct 1 ''data'' ''.lock'', Move_construct 2 0,
      Call 2 Req_try_lock, Swap 1 2, Move_assign 2 1, Default_construct 3, Move_assign 3 3,
      Destroy 1, Remove ''data.lock'']"

section \<open>Facts about the environment\<close>

subsection \<open>Files\<close>

lemma create_file_lock_eq:
  "create_file_lock lp os =
     (if lp \<in> denied os then (Inl interprocess_exception, os)
      else (Inr \<lparr>m_file_hnd = Some (Suc (next_handle os))\<rparr>,
            os\<lparr>files := (files os)(lp \<mapsto> (case files os lp of None \<Rightarrow> [] | Some c \<Rightarrow> c)),
               handles := ((handles os)(next_handle os := None))(Suc (next_handle os) \<mapsto> lp),
               next_handle := Suc (Suc (next_handle os)),
               locks := filter (\<lambda>c. holder c \<noteq> next_handle os) (locks os)\<rparr>))"
  by (simp add: create_file_lock_def ofstream_open_def ofstream_close_def file_lock_ctor_def
        open_handle_def close_file_def Let_def split: option.splits)

text \<open>The mode of the stream matters: plain output would empty an existing lock file.\<close>

lemma ofstream_open_contents:
  assumes "p \<notin> denied os" and "files os p = Some c"
  shows "files (snd (ofstream_open p ios_app os)) p = Some c"
    and "files (snd (ofstream_open p ios_out os)) p = Some []"
  using assms by (simp_all add: ofstream_open_def open_handle_def Let_def)


lemma file_mutex_ctor_failure:
  "file_mutex_ctor p s os = (Inl e, os') \<Longrightarrow> os' = os"
  by (auto simp: file_mutex_ctor_def create_file_lock_eq split: if_splits)

lemma filesystem_remove_handles:
  "filesystem_remove p os = (r, os') \<Longrightarrow>
     handles os' = handles os \<and> next_handle os' = next_handle os"
  by (auto simp: filesystem_remove_def split: option.splits if_splits)

lemma issued_fresh:
  "handles_issued os \<Longrightarrow> next_handle os \<le> h \<Longrightarrow> handles os h = None"
  by (fastforce simp: handles_issued_def)

subsection \<open>Locks\<close>

lemma active_mono: "active c t' \<Longrightarrow> t \<le> t' \<Longrightarrow> active c t"
  by (auto simp: active_def split: option.splits)

lemma owns_grant: "owns (grant os h m) h m"
  by (simp add: owns_def grant_def active_def)

lemma timed_acquire_result:
  "timed_acquire h m t os = (r, os') \<Longrightarrow>
     now os \<le> now os' \<and>
     (r \<longrightarrow> now os' < t \<and> os' = grant (os\<lparr>now := now os'\<rparr>) h m \<and>
            \<not> conflicts (os\<lparr>now := now os'\<rparr>) h m) \<and>
     (\<not> r \<longrightarrow> t \<le> now os' \<and> os' = os\<lparr>now := now os'\<rparr>)"
proof (induction h m t os rule: timed_acquire.induct)
  case (1 h m abs_time os)
  show ?case
  proof (cases "abs_time \<le> now os")
    case True
    with "1.prems" show ?thesis by (simp add: timed_acquire.simps [of h m abs_time os])
  next
    case late: False
    show ?thesis
    proof (cases "conflicts os h m")
      case True
      with late "1.prems" have e: "timed_acquire h m abs_time (tick os) = (r, os')"
        by (simp add: timed_acquire.simps [of h m abs_time os])
      from "1.IH" [OF late True e] show ?thesis
        by (simp add: tick_def)
    next
      case False
      with late "1.prems" show ?thesis
        by (auto simp: grant_def timed_acquire.simps [of h m abs_time os])
    qed
  qed
qed

lemma tick_now_update: "(tick os)\<lparr>now := u\<rparr> = os\<lparr>now := u\<rparr>"
  by (simp add: tick_def)

lemma timed_acquire_true_iff:
  "fst (timed_acquire h m t os) \<longleftrightarrow>
     (\<exists>u. now os \<le> u \<and> u < t \<and> \<not> conflicts (os\<lparr>now := u\<rparr>) h m)"
proof (induction h m t os rule: timed_acquire.induct)
  case (1 h m abs_time os)
  show ?case
  proof (cases "abs_time \<le> now os")
    case True
    then show ?thesis by (simp add: timed_acquire.simps [of h m abs_time os])
  next
    case late: False
    show ?thesis
    proof (cases "conflicts os h m")
      case True
      have at_now: "conflicts (os\<lparr>now := now os\<rparr>) h m" using True by simp
      have "fst (timed_acquire h m abs_time os) = fst (timed_acquire h m abs_time (tick os))"
        using late True by (simp add: timed_acquire.simps [of h m abs_time os])
      also have "\<dots> \<longleftrightarrow> (\<exists>u. Suc (now os) \<le> u \<and> u < abs_time \<and> \<not> conflicts (os\<lparr>now := u\<rparr>) h m)"
        using "1.IH" [OF late True] by (simp add: tick_now_update) (simp add: tick_def)
      also have "\<dots> \<longleftrightarrow> (\<exists>u. now os \<le> u \<and> u < abs_time \<and> \<not> conflicts (os\<lparr>now := u\<rparr>) h m)"
        using at_now by (metis Suc_leD Suc_leI le_neq_implies_less)
      finally show ?thesis .
    next
      case False
      then have "\<not> conflicts (os\<lparr>now := now os\<rparr>) h m" by simp
      with late False show ?thesis
        by (auto simp: timed_acquire.simps [of h m abs_time os] intro!: exI [of _ "now os"])
    qed
  qed
qed

lemma file_lock_timed_acquire_sound:
  assumes "m_file_hnd fl = Some h" and "handles os h \<noteq> None"
  shows "\<exists>r os'. file_lock_timed_acquire m fl t os = (Inr r, os') \<and>
           (r \<longrightarrow> owns os' h m \<and> now os' < t) \<and>
           (\<not> r \<longrightarrow> locks os' = locks os \<and> t \<le> now os') \<and>
           (\<not> owns os h m \<longrightarrow> r = owns os' h m) \<and>
           (r \<longleftrightarrow> (\<exists>u. now os \<le> u \<and> u < t \<and> \<not> conflicts (os\<lparr>now := u\<rparr>) h m))"
proof -
  obtain r os' where e: "timed_acquire h m t os = (r, os')"
    by (cases "timed_acquire h m t os")
  note res = timed_acquire_result [OF e]
  have call: "file_lock_timed_acquire m fl t os = (Inr r, os')"
    using assms e by (auto simp: file_lock_timed_acquire_def with_handle_def)
  have won: "owns os' h m \<and> now os' < t" if r
    using res that owns_grant [of "os\<lparr>now := now os'\<rparr>" h m] by simp
  have lost: "locks os' = locks os \<and> t \<le> now os'" if "\<not> r"
  proof -
    from res that have "os' = os\<lparr>now := now os'\<rparr>" and "t \<le> now os'" by simp_all
    then show ?thesis by (metis os_state.select_convs(5) os_state.surjective os_state.update_convs(6))
  qed
  have same: "r = owns os' h m" if "\<not> owns os h m"
  proof (cases r)
    case True
    with won show ?thesis by simp
  next
    case False
    with lost res have l: "locks os' = locks os" and n: "now os \<le> now os'" by simp_all
    have "\<not> owns os' h m"
      using that l n by (auto simp: owns_def list_ex_iff dest: active_mono)
    with False show ?thesis by simp
  qed
  have free: "r \<longleftrightarrow> (\<exists>u. now os \<le> u \<and> u < t \<and> \<not> conflicts (os\<lparr>now := u\<rparr>) h m)"
    using timed_acquire_true_iff [of h m t os] e by simp
  from call won lost same free show ?thesis by blast
qed

text \<open>No locking call opens or closes a handle.\<close>

lemma wait_acquire_handles:
  assumes "wait_acquire h m os = Some os'"
  shows "handles os' = handles os \<and> next_handle os' = next_handle os"
proof (rule wait_acquire.raw_induct
    [where P = "\<lambda>h m os os'. handles os' = handles os \<and> next_handle os' = next_handle os",
      OF _ assms])
  fix w :: "file_handle_t \<Rightarrow> lock_mode \<Rightarrow> os_state \<Rightarrow> os_state option" and h m os os'
  assume IH: "\<And>h m os os'. w h m os = Some os' \<Longrightarrow>
                handles os' = handles os \<and> next_handle os' = next_handle os"
    and step: "(if conflicts os h m then w h m (tick os) else Some (grant os h m)) = Some os'"
  show "handles os' = handles os \<and> next_handle os' = next_handle os"
  proof (cases "conflicts os h m")
    case True
    with step have "w h m (tick os) = Some os'" by simp
    from IH [OF this] show ?thesis by (simp add: tick_def)
  next
    case False
    with step show ?thesis by (auto simp: grant_def)
  qed
qed

lemma timed_acquire_handles:
  assumes "timed_acquire h m t os = (r, os')"
  shows "handles os' = handles os \<and> next_handle os' = next_handle os"
proof -
  note res = timed_acquire_result [OF assms]
  show ?thesis
  proof (cases r)
    case True
    with res have "os' = grant (os\<lparr>now := now os'\<rparr>) h m" by simp
    then have "handles os' = handles (grant (os\<lparr>now := now os'\<rparr>) h m)"
      and "next_handle os' = next_handle (grant (os\<lparr>now := now os'\<rparr>) h m)" by simp_all
    then show ?thesis by (simp add: grant_def)
  next
    case False
    with res have "os' = os\<lparr>now := now os'\<rparr>" by simp
    then have "handles os' = handles (os\<lparr>now := now os'\<rparr>)"
      and "next_handle os' = next_handle (os\<lparr>now := now os'\<rparr>)" by simp_all
    then show ?thesis by simp
  qed
qed

lemma file_lock_acquire_handles:
  "file_lock_acquire m fl os = Some (r, os') \<Longrightarrow>
     handles os' = handles os \<and> next_handle os' = next_handle os"
  by (auto simp: file_lock_acquire_def split: sum.splits dest: wait_acquire_handles)

lemma file_lock_try_acquire_handles:
  "file_lock_try_acquire m fl os = (r, os') \<Longrightarrow>
     handles os' = handles os \<and> next_handle os' = next_handle os"
  by (auto simp: file_lock_try_acquire_def try_acquire_def grant_def
      split: sum.splits if_splits)

lemma file_lock_timed_acquire_handles:
  "file_lock_timed_acquire m fl t os = (r, os') \<Longrightarrow>
     handles os' = handles os \<and> next_handle os' = next_handle os"
  by (auto simp: file_lock_timed_acquire_def split: sum.splits prod.splits
      dest: timed_acquire_handles)

lemma file_lock_release_handles:
  "file_lock_release m fl os = (r, os') \<Longrightarrow>
     handles os' = handles os \<and> next_handle os' = next_handle os"
  by (auto simp: file_lock_release_def release_def split: sum.splits if_splits)

lemma of_unit_snd: "snd (of_unit x) = snd x"
  by (auto simp: of_unit_def split: prod.splits sum.splits)

lemma of_bool_snd: "snd (of_bool x) = snd x"
  by (auto simp: of_bool_def split: prod.splits sum.splits)

lemma file_mutex_call_handles:
  assumes "file_mutex_call rq fm os = Some (r, os')"
  shows "handles os' = handles os \<and> next_handle os' = next_handle os"
proof (cases rq)
  case Req_lock
  with assms obtain x where "file_lock_acquire Exclusive (m_file_lock fm) os = Some x"
    and "of_unit x = (r, os')"
    by (auto simp: file_mutex_lock_def file_lock_lock_def)
  then show ?thesis
    using file_lock_acquire_handles [of Exclusive "m_file_lock fm" os "fst x" "snd x"]
      of_unit_snd [of x] by simp
next
  case Req_try_lock
  with assms have "of_bool (file_lock_try_acquire Exclusive (m_file_lock fm) os) = (r, os')"
    by (simp add: file_mutex_try_lock_def file_lock_try_lock_def)
  then show ?thesis
    using file_lock_try_acquire_handles [of Exclusive "m_file_lock fm" os]
      of_bool_snd [of "file_lock_try_acquire Exclusive (m_file_lock fm) os"]
    by (cases "file_lock_try_acquire Exclusive (m_file_lock fm) os") simp
next
  case (Req_timed_lock t)
  with assms have "of_bool (file_lock_timed_acquire Exclusive (m_file_lock fm) t os) = (r, os')"
    by (simp add: file_mutex_timed_lock_def file_lock_timed_lock_def)
  then show ?thesis
    using file_lock_timed_acquire_handles [of Exclusive "m_file_lock fm" t os]
      of_bool_snd [of "file_lock_timed_acquire Exclusive (m_file_lock fm) t os"]
    by (cases "file_lock_timed_acquire Exclusive (m_file_lock fm) t os") simp
next
  case Req_unlock
  with assms have "of_unit (file_lock_release Exclusive (m_file_lock fm) os) = (r, os')"
    by (simp add: file_mutex_unlock_def file_lock_unlock_def)
  then show ?thesis
    using file_lock_release_handles [of Exclusive "m_file_lock fm" os]
      of_unit_snd [of "file_lock_release Exclusive (m_file_lock fm) os"]
    by (cases "file_lock_release Exclusive (m_file_lock fm) os") simp
next
  case Req_lock_sharable
  with assms obtain x where "file_lock_acquire Sharable (m_file_lock fm) os = Some x"
    and "of_unit x = (r, os')"
    by (auto simp: file_mutex_lock_sharable_def file_lock_lock_sharable_def)
  then show ?thesis
    using file_lock_acquire_handles [of Sharable "m_file_lock fm" os "fst x" "snd x"]
      of_unit_snd [of x] by simp
next
  case Req_try_lock_sharable
  with assms have "of_bool (file_lock_try_acquire Sharable (m_file_lock fm) os) = (r, os')"
    by (simp add: file_mutex_try_lock_sharable_def file_lock_try_lock_sharable_def)
  then show ?thesis
    using file_lock_try_acquire_handles [of Sharable "m_file_lock fm" os]
      of_bool_snd [of "file_lock_try_acquire Sharable (m_file_lock fm) os"]
    by (cases "file_lock_try_acquire Sharable (m_file_lock fm) os") simp
next
  case (Req_timed_lock_sharable t)
  with assms have "of_bool (file_lock_timed_acquire Sharable (m_file_lock fm) t os) = (r, os')"
    by (simp add: file_mutex_timed_lock_sharable_def file_lock_timed_lock_sharable_def)
  then show ?thesis
    using file_lock_timed_acquire_handles [of Sharable "m_file_lock fm" t os]
      of_bool_snd [of "file_lock_timed_acquire Sharable (m_file_lock fm) t os"]
    by (cases "file_lock_timed_acquire Sharable (m_file_lock fm) t os") simp
next
  case Req_unlock_sharable
  with assms have "of_unit (file_lock_release Sharable (m_file_lock fm) os) = (r, os')"
    by (simp add: file_mutex_unlock_sharable_def file_lock_unlock_sharable_def)
  then show ?thesis
    using file_lock_release_handles [of Sharable "m_file_lock fm" os]
      of_unit_snd [of "file_lock_release Sharable (m_file_lock fm) os"]
    by (cases "file_lock_release Sharable (m_file_lock fm) os") simp
qed

subsection \<open>The store\<close>

lemma get_hnd_put_hnd:
  "get_hnd (put_hnd a v s) b = (if b = a \<and> s a \<noteq> None then v else get_hnd s b)"
  by (auto simp: get_hnd_def put_hnd_def split: option.splits)

lemma put_hnd_None_iff: "put_hnd a v s b = None \<longleftrightarrow> s b = None"
  by (auto simp: put_hnd_def split: option.splits)

lemma put_hnd_other: "b \<noteq> a \<Longrightarrow> put_hnd a v s b = s b"
  by (auto simp: put_hnd_def split: option.splits)

lemma file_mutex_eqI:
  "m_file_hnd (m_file_lock x) = m_file_hnd (m_file_lock y) \<Longrightarrow> x = (y::file_mutex)"
  by (cases x, cases y) (auto intro: file_lock.equality)

lemma obj_eqI:
  "s1 c \<noteq> None \<Longrightarrow> s2 d \<noteq> None \<Longrightarrow> get_hnd s1 c = get_hnd s2 d \<Longrightarrow> s1 c = s2 d"
  by (auto simp: get_hnd_def intro: file_mutex_eqI)

lemma swap_None_iff: "file_mutex_swap a b s c = None \<longleftrightarrow> s c = None"
  by (simp add: file_mutex_swap_def file_lock_swap_def put_hnd_None_iff)

lemma get_hnd_swap:
  "s a \<noteq> None \<Longrightarrow> s b \<noteq> None \<Longrightarrow>
   get_hnd (file_mutex_swap a b s) c =
     (if c = b then get_hnd s a else if c = a then get_hnd s b else get_hnd s c)"
  by (simp add: file_mutex_swap_def file_lock_swap_def get_hnd_put_hnd put_hnd_None_iff)

lemma swap_other: "c \<noteq> a \<Longrightarrow> c \<noteq> b \<Longrightarrow> file_mutex_swap a b s c = s c"
  by (simp add: file_mutex_swap_def file_lock_swap_def put_hnd_other)

lemma swap_store:
  assumes "s a \<noteq> None" and "s b \<noteq> None"
  shows "file_mutex_swap a b s = s(a := s b, b := s a)"
proof
  fix c
  consider "c = b" | "c = a" "c \<noteq> b" | "c \<noteq> a" "c \<noteq> b" by blast
  then show "file_mutex_swap a b s c = (s(a := s b, b := s a)) c"
  proof cases
    case 1
    have "file_mutex_swap a b s b = s a"
      using assms by (intro obj_eqI) (simp_all add: swap_None_iff get_hnd_swap)
    with 1 show ?thesis by simp
  next
    case 2
    have "file_mutex_swap a b s a = s b"
      using assms 2 by (intro obj_eqI) (simp_all add: swap_None_iff get_hnd_swap)
    with 2 show ?thesis by simp
  next
    case 3
    then show ?thesis by (simp add: swap_other)
  qed
qed

lemma move_ctor_store:
  assumes "s moved \<noteq> None" and "this \<noteq> moved"
  shows "file_mutex_move_ctor this moved s = s(this := s moved, moved \<mapsto> file_mutex_default)"
  using assms by (simp add: file_mutex_move_ctor_def swap_store)

lemma move_assign_state:
  assumes "objs st this = Some ft" and "objs st moved = Some fa"
    and "this \<noteq> moved" and "this \<noteq> Temp" and "moved \<noteq> Temp"
  shows "file_mutex_move_assign this moved st =
           \<lparr>objs = (objs st)(moved \<mapsto> file_mutex_default, this \<mapsto> fa, Temp := None),
            host = file_lock_dtor (m_file_lock ft) (host st)\<rparr>"
proof -
  have s1: "file_mutex_move_ctor Temp moved (objs st) =
              (objs st)(Temp \<mapsto> fa, moved \<mapsto> file_mutex_default)"
    using assms by (simp add: move_ctor_store)
  have s2: "file_mutex_swap this Temp ((objs st)(Temp \<mapsto> fa, moved \<mapsto> file_mutex_default)) =
              (objs st)(moved \<mapsto> file_mutex_default, this \<mapsto> fa, Temp \<mapsto> ft)"
    using assms by (auto simp: swap_store)
  show ?thesis
    using assms by (simp add: file_mutex_move_assign_def s1 s2 file_mutex_dtor_def)
qed

lemma dtor_default: "file_lock_dtor (m_file_lock file_mutex_default) os = os"
  by (simp add: file_mutex_default_def file_lock_default_def file_lock_dtor_def)

lemma move_assign_self:
  assumes "objs st this = Some ft" and "this \<noteq> Temp"
  shows "file_mutex_move_assign this this st = st\<lparr>objs := (objs st)(Temp := None)\<rparr>"
proof -
  have s1: "file_mutex_move_ctor Temp this (objs st) =
              (objs st)(Temp \<mapsto> ft, this \<mapsto> file_mutex_default)"
    using assms by (simp add: move_ctor_store)
  have s2: "file_mutex_swap this Temp ((objs st)(Temp \<mapsto> ft, this \<mapsto> file_mutex_default)) =
              (objs st)(this \<mapsto> ft, Temp \<mapsto> file_mutex_default)"
    using assms by (auto simp: swap_store)
  have "(objs st)(this \<mapsto> ft) = objs st"
    using assms by (simp add: fun_upd_idem)
  then show ?thesis
    using assms
    by (simp add: file_mutex_move_assign_def s1 s2 file_mutex_dtor_def dtor_default)
qed

subsection \<open>The ownership invariant\<close>

lemma get_hnd_upd:
  "get_hnd (s(x := v)) c =
     (if c = x then (case v of None \<Rightarrow> None | Some fm \<Rightarrow> m_file_hnd (m_file_lock fm))
      else get_hnd s c)"
  by (simp add: get_hnd_def)

lemma get_hnd_default: "m_file_hnd (m_file_lock file_mutex_default) = None"
  by (simp add: file_mutex_default_def file_lock_default_def)

lemma inv_initial:
  "handles_issued os \<Longrightarrow> ownership_inv \<lparr>objs = Map.empty, host = os\<rparr>"
  by (simp add: ownership_inv_def single_owner_def owned_open_def get_hnd_def)

lemma inv_default_construct:
  assumes "ownership_inv st"
  shows "ownership_inv (st\<lparr>objs := (objs st)(Obj a \<mapsto> file_mutex_default)\<rparr>)"
  using assms
  by (auto simp: ownership_inv_def single_owner_def owned_open_def get_hnd_upd get_hnd_default
      split: if_splits)

lemma owned_below:
  assumes "ownership_inv st" and "get_hnd (objs st) c = Some h"
  shows "h < next_handle (host st)"
  using assms by (auto simp: ownership_inv_def owned_open_def handles_issued_def)

lemma inv_construct:
  assumes inv: "ownership_inv st"
    and c: "file_mutex_ctor p s (host st) = (Inr fm, os')"
  shows "ownership_inv \<lparr>objs = (objs st)(Obj a \<mapsto> fm), host = os'\<rparr>"
proof -
  let ?n = "next_handle (host st)"
  from c have fm: "m_file_hnd (m_file_lock fm) = Some (Suc ?n)"
    and h: "handles os' = ((handles (host st))(?n := None))(Suc ?n \<mapsto> p @ s)"
    and n: "next_handle os' = Suc (Suc ?n)"
    by (auto simp: file_mutex_ctor_def create_file_lock_eq build_file_lock_path_def
        split: if_splits)
  note below = owned_below [OF inv]
  have "single_owner \<lparr>objs = (objs st)(Obj a \<mapsto> fm), host = os'\<rparr>"
    using inv below fm
    by (fastforce simp: ownership_inv_def single_owner_def get_hnd_upd split: if_splits)
  moreover have "owned_open \<lparr>objs = (objs st)(Obj a \<mapsto> fm), host = os'\<rparr>"
    using inv below fm h
    by (fastforce simp: ownership_inv_def owned_open_def get_hnd_upd split: if_splits)
  moreover have "handles_issued os'"
    using inv h n
    by (auto simp: ownership_inv_def handles_issued_def less_Suc_eq split: if_splits)
  moreover have "((objs st)(Obj a \<mapsto> fm)) Temp = None"
    using inv by (simp add: ownership_inv_def)
  ultimately show ?thesis by (simp add: ownership_inv_def)
qed

lemma inv_same_handles:
  assumes "ownership_inv st" and "handles os' = handles (host st)"
    and "next_handle os' = next_handle (host st)"
  shows "ownership_inv (st\<lparr>host := os'\<rparr>)"
  using assms by (simp add: ownership_inv_def single_owner_def owned_open_def handles_issued_def)

lemma inv_exchange:
  assumes inv: "ownership_inv st" and t: "a \<noteq> Temp" "b \<noteq> Temp"
  shows "ownership_inv (st\<lparr>objs := (objs st)(a := objs st b, b := objs st a)\<rparr>)"
proof -
  let ?s' = "(objs st)(a := objs st b, b := objs st a)"
  have g: "get_hnd ?s' c =
      (if c = b then get_hnd (objs st) a else if c = a then get_hnd (objs st) b
       else get_hnd (objs st) c)" for c
    by (simp add: get_hnd_def)
  have "single_owner (st\<lparr>objs := ?s'\<rparr>)"
    using inv unfolding ownership_inv_def single_owner_def
    by (simp add: g) metis
  moreover have "owned_open (st\<lparr>objs := ?s'\<rparr>)"
    using inv unfolding ownership_inv_def owned_open_def
    by (simp add: g)
  moreover have "?s' Temp = None"
    using inv t by (simp add: ownership_inv_def)
  ultimately show ?thesis
    using inv by (simp add: ownership_inv_def)
qed

lemma inv_destroy:
  assumes inv: "ownership_inv st" and a: "objs st a = Some fa"
  shows "ownership_inv \<lparr>objs = (objs st)(a := None),
                         host = file_lock_dtor (m_file_lock fa) (host st)\<rparr>"
proof (cases "m_file_hnd (m_file_lock fa)")
  case None
  then have "file_lock_dtor (m_file_lock fa) (host st) = host st"
    by (simp add: file_lock_dtor_def)
  then show ?thesis
    using inv
    by (auto simp: ownership_inv_def single_owner_def owned_open_def get_hnd_upd
        split: if_splits)
next
  case (Some h)
  then have d: "file_lock_dtor (m_file_lock fa) (host st) = close_file h (host st)"
    by (simp add: file_lock_dtor_def)
  from a Some have own: "get_hnd (objs st) a = Some h"
    by (simp add: get_hnd_def)
  have others: "h' \<noteq> h" if "get_hnd (objs st) c = Some h'" "c \<noteq> a" for c h'
    using inv own that by (auto simp: ownership_inv_def single_owner_def)
  have "single_owner \<lparr>objs = (objs st)(a := None), host = close_file h (host st)\<rparr>"
    using inv by (auto simp: ownership_inv_def single_owner_def get_hnd_upd split: if_splits)
  moreover have "owned_open \<lparr>objs = (objs st)(a := None), host = close_file h (host st)\<rparr>"
    using inv others
    by (auto simp: ownership_inv_def owned_open_def get_hnd_upd close_file_def split: if_splits)
  moreover have "handles_issued (close_file h (host st))"
    using inv by (auto simp: ownership_inv_def handles_issued_def close_file_def split: if_splits)
  moreover have "((objs st)(a := None)) Temp = None"
    using inv by (simp add: ownership_inv_def)
  ultimately show ?thesis by (simp add: ownership_inv_def d)
qed

lemma inv_move_construct:
  assumes inv: "ownership_inv st" and b: "objs st (Obj b) \<noteq> None" and ab: "a \<noteq> b"
  shows "ownership_inv (st\<lparr>objs := file_mutex_move_ctor (Obj a) (Obj b) (objs st)\<rparr>)"
proof -
  let ?st1 = "st\<lparr>objs := (objs st)(Obj a \<mapsto> file_mutex_default)\<rparr>"
  have "ownership_inv ?st1" using inv by (rule inv_default_construct)
  from inv_exchange [OF this, of "Obj a" "Obj b"] b ab show ?thesis
    by (simp add: file_mutex_move_ctor_def swap_store)
qed

lemma inv_move_assign:
  assumes inv: "ownership_inv st"
    and a: "objs st (Obj a) = Some fa" and b: "objs st (Obj b) = Some fb"
  shows "ownership_inv (file_mutex_move_assign (Obj a) (Obj b) st)"
proof (cases "a = b")
  case True
  from inv have "objs st Temp = None" by (simp add: ownership_inv_def)
  then have "(objs st)(Temp := None) = objs st" by (simp add: fun_upd_idem)
  with True a inv show ?thesis by (simp add: move_assign_self)
next
  case False
  let ?st1 = "st\<lparr>objs := (objs st)(Obj a := objs st (Obj b), Obj b := objs st (Obj a))\<rparr>"
  have 1: "ownership_inv ?st1" using inv by (intro inv_exchange) simp_all
  have "objs ?st1 (Obj b) = Some fa" using a by simp
  from inv_destroy [OF 1 this]
  have "ownership_inv \<lparr>objs = (objs st)(Obj a := objs st (Obj b), Obj b := None),
                         host = file_lock_dtor (m_file_lock fa) (host st)\<rparr>"
    by simp
  from inv_default_construct [OF this, of b]
  have "ownership_inv \<lparr>objs = (objs st)(Obj a := objs st (Obj b), Obj b \<mapsto> file_mutex_default),
                         host = file_lock_dtor (m_file_lock fa) (host st)\<rparr>"
    by simp
  moreover from inv have "objs st Temp = None" by (simp add: ownership_inv_def)
  then have "(objs st)(Obj b \<mapsto> file_mutex_default, Obj a \<mapsto> fb, Temp := None) =
             (objs st)(Obj a := objs st (Obj b), Obj b \<mapsto> file_mutex_default)"
    using b False by (auto simp: fun_eq_iff)
  ultimately show ?thesis
    using a b False by (simp add: move_assign_state)
qed

lemma exec_preserves_inv:
  assumes inv: "ownership_inv st" and e: "exec x st = Some (r, st')"
  shows "ownership_inv st'"
proof (cases x)
  case (Default_construct a)
  with e inv inv_default_construct [OF inv, of a] show ?thesis
    by (auto split: if_splits)
next
  case (Construct a p s)
  show ?thesis
  proof (cases "live st a")
    case True
    with e inv Construct show ?thesis by simp
  next
    case False
    obtain res os' where c: "file_mutex_ctor p s (host st) = (res, os')"
      by (cases "file_mutex_ctor p s (host st)")
    show ?thesis
    proof (cases res)
      case (Inl err)
      with c have "os' = host st" by (simp add: file_mutex_ctor_failure)
      with e inv Construct False c Inl show ?thesis by auto
    next
      case (Inr fm)
      with e Construct False c inv_construct [OF inv, of p s fm os' a] show ?thesis by auto
    qed
  qed
next
  case (Move_construct a b)
  show ?thesis
  proof (cases "live st a \<or> \<not> live st b")
    case True
    with e inv Move_construct show ?thesis by auto
  next
    case False
    then have "objs st (Obj b) \<noteq> None" and "a \<noteq> b" by (auto simp: live_def)
    from inv_move_construct [OF inv this] e Move_construct False show ?thesis by auto
  qed
next
  case (Move_assign a b)
  show ?thesis
  proof (cases "\<not> live st a \<or> \<not> live st b")
    case True
    with e inv Move_assign show ?thesis by auto
  next
    case False
    then obtain fa fb where "objs st (Obj a) = Some fa" and "objs st (Obj b) = Some fb"
      by (auto simp: live_def)
    from inv_move_assign [OF inv this] e Move_assign False show ?thesis by auto
  qed
next
  case (Swap a b)
  show ?thesis
  proof (cases "\<not> live st a \<or> \<not> live st b")
    case True
    with e inv Swap show ?thesis by auto
  next
    case False
    then have l: "objs st (Obj a) \<noteq> None" "objs st (Obj b) \<noteq> None" by (auto simp: live_def)
    from inv_exchange [OF inv, of "Obj a" "Obj b"] l e Swap False show ?thesis
      by (auto simp: swap_store)
  qed
next
  case (Call a rq)
  show ?thesis
  proof (cases "objs st (Obj a)")
    case None
    with e inv Call show ?thesis by simp
  next
    case (Some fm)
    with e Call obtain os' where c: "file_mutex_call rq fm (host st) = Some (r, os')"
      and s: "st' = st\<lparr>host := os'\<rparr>" by auto
    from file_mutex_call_handles [OF c] inv show ?thesis
      unfolding s by (intro inv_same_handles) simp_all
  qed
next
  case (Destroy a)
  show ?thesis
  proof (cases "objs st (Obj a)")
    case None
    with e inv Destroy show ?thesis by (simp add: live_def)
  next
    case (Some fa)
    from inv_destroy [OF inv Some] e Destroy Some show ?thesis
      by (simp add: live_def file_mutex_dtor_def)
  qed
next
  case (Remove p)
  obtain res os' where f: "filesystem_remove p (host st) = (res, os')"
    by (cases "filesystem_remove p (host st)")
  with e Remove have s: "st' = st\<lparr>host := os'\<rparr>"
    by (auto simp: file_mutex_remove_def of_bool_def split: sum.splits)
  from filesystem_remove_handles [OF f] inv show ?thesis
    unfolding s by (intro inv_same_handles) simp_all
qed

lemma run_preserves_inv:
  "ownership_inv st \<Longrightarrow> run xs st = Some st' \<Longrightarrow> ownership_inv st'"
proof (induction xs arbitrary: st)
  case Nil
  then show ?case by simp
next
  case (Cons x xs)
  then show ?case
    by (auto split: option.splits dest: exec_preserves_inv)
qed

section \<open>The claims\<close>

lemmas run_defs =
  start_def host0_def live_def file_mutex_ctor_def create_file_lock_eq
  build_file_lock_path_def file_mutex_move_ctor_def file_mutex_swap_def file_lock_swap_def
  get_hnd_def put_hnd_def file_mutex_default_def file_lock_default_def
  file_mutex_move_assign_def file_mutex_dtor_def file_lock_dtor_def close_file_def
  file_mutex_try_lock_def file_lock_try_lock_def file_lock_try_acquire_def with_handle_def
  try_acquire_def conflicts_def active_def grant_def of_bool_def of_unit_def
  file_mutex_remove_def filesystem_remove_def Let_def






text \<open>
  C3: each of the eight locking operations of \<open>file_mutex\<close> is the operation of the
  same name of \<open>file_lock\<close> applied to the member \<open>m_file_lock\<close>: same result, same
  effect on the host, same failure, and a call that blocks for ever exactly when the
  primitive does. A call through an object in the store changes no object and leaves the
  host as the call on its value leaves it.
\<close>

theorem locking_is_delegation:
  "file_mutex_lock fm os = file_lock_lock (m_file_lock fm) os \<and>
   file_mutex_try_lock fm os = file_lock_try_lock (m_file_lock fm) os \<and>
   file_mutex_timed_lock fm t os = file_lock_timed_lock (m_file_lock fm) t os \<and>
   file_mutex_unlock fm os = file_lock_unlock (m_file_lock fm) os \<and>
   file_mutex_lock_sharable fm os = file_lock_lock_sharable (m_file_lock fm) os \<and>
   file_mutex_try_lock_sharable fm os = file_lock_try_lock_sharable (m_file_lock fm) os \<and>
   file_mutex_timed_lock_sharable fm t os = file_lock_timed_lock_sharable (m_file_lock fm) t os \<and>
   file_mutex_unlock_sharable fm os = file_lock_unlock_sharable (m_file_lock fm) os \<and>
   (objs st (Obj a) = Some fm \<and> exec (Call a rq) st = Some (r, st') \<longrightarrow>
      objs st' = objs st \<and> file_mutex_call rq fm (host st) = Some (r, host st'))"
  by (auto simp: file_mutex_lock_def file_mutex_try_lock_def file_mutex_timed_lock_def
        file_mutex_unlock_def file_mutex_lock_sharable_def file_mutex_try_lock_sharable_def
        file_mutex_timed_lock_sharable_def file_mutex_unlock_sharable_def)

theorem locking_is_delegation_witness:
  "objs one (Obj 0) = Some fm1 \<and>
   exec (Call 0 Req_try_lock_sharable) one = Some (Returned False, one) \<and>
   file_lock_try_lock_sharable (m_file_lock fm1) host1 = (Inr False, host1) \<and>
   file_mutex_call Req_try_lock_sharable fm1 (host one) = Some (Returned False, host one)"
proof -
  have o: "objs one (Obj 0) = Some fm1"
    by (simp add: one_def)
  have p: "file_lock_try_lock_sharable (m_file_lock fm1) host1 = (Inr False, host1)"
    by (simp add: file_lock_try_lock_sharable_def host1_def fm1_def run_defs)
  then have e: "exec (Call 0 Req_try_lock_sharable) one = Some (Returned False, one)"
    by (simp add: one_def file_mutex_try_lock_sharable_def of_bool_def)
  from locking_is_delegation [of fm1 host1 0 one 0 Req_try_lock_sharable "Returned False" one]
    o e p
  show ?thesis by simp
qed

text \<open>
  C4, as stated: for every instance \<open>a\<close> that owns a handle, move-assigning \<open>a\<close> into
  \<open>b\<close> leaves \<open>b\<close> owning that handle and \<open>a\<close> empty. The destination may be \<open>a\<close>
  itself: \<open>operator=\<close> has no guard, \<open>tmp\<close> takes the handle, the swap gives it back
  and the empty \<open>tmp\<close> is destroyed. Assigning the first object of \<open>two\<close> to itself
  leaves the state as it was, with the object still owning handle 1: it does not become
  empty.
\<close>

theorem self_move_assign_keeps_handle:
  "objs two (Obj 0) = Some fm_a \<and> m_file_hnd (m_file_lock fm_a) = Some 1 \<and>
   exec (Move_assign 0 0) two = Some (Done, two) \<and>
   get_hnd (objs two) (Obj 0) = Some 1"
proof -
  have a: "objs two (Obj 0) = Some fm_a" and h: "m_file_hnd (m_file_lock fm_a) = Some 1"
    and l: "live two 0" and g: "get_hnd (objs two) (Obj 0) = Some 1"
    by (simp_all add: two_def fm_a_def live_def get_hnd_def)
  have "objs two Temp = None"
    by (simp add: two_def)
  then have "(objs two)(Temp := None) = objs two"
    by (simp add: fun_upd_idem)
  with move_assign_self [OF a] have "file_mutex_move_assign (Obj 0) (Obj 0) two = two"
    by simp
  with l have "exec (Move_assign 0 0) two = Some (Done, two)"
    by simp
  with a h g show ?thesis by simp
qed

text \<open>
  C4, amended: let \<open>a\<close> own the handle \<open>h\<close>. Move-constructing a new object \<open>b\<close> from
  \<open>a\<close> leaves \<open>b\<close> with the value \<open>a\<close> had, so \<open>b\<close> owns \<open>h\<close>, leaves \<open>a\<close> empty
  and touches neither the host nor any other object; every locking call on \<open>b\<close> afterwards
  has the outcome and the effect on the host that the same call on \<open>a\<close> had before the
  move. Move-assigning \<open>a\<close> into an object \<open>b\<close> distinct from \<open>a\<close> does the same to the
  two objects, and closes the handle \<open>b\<close> owned before, as the destructor of \<open>tmp\<close> does;
  every locking call on \<open>b\<close> afterwards is the call on the value \<open>a\<close> had.
\<close>

theorem move_transfers_ownership:
  assumes "objs st (Obj a) = Some fa" and "m_file_hnd (m_file_lock fa) = Some h"
  shows "(\<not> live st b \<longrightarrow>
            (\<exists>st'. exec (Move_construct b a) st = Some (Done, st') \<and>
               objs st' (Obj b) = Some fa \<and> get_hnd (objs st') (Obj b) = Some h \<and>
               get_hnd (objs st') (Obj a) = None \<and> objs st' (Obj a) = Some file_mutex_default \<and>
               (\<forall>c. c \<noteq> Obj a \<and> c \<noteq> Obj b \<longrightarrow> objs st' c = objs st c) \<and>
               host st' = host st \<and>
               (\<forall>rq. map_option (\<lambda>(r, s). (r, host s)) (exec (Call b rq) st') =
                     map_option (\<lambda>(r, s). (r, host s)) (exec (Call a rq) st)))) \<and>
         (\<forall>fb. objs st (Obj b) = Some fb \<and> a \<noteq> b \<longrightarrow>
            (\<exists>st'. exec (Move_assign b a) st = Some (Done, st') \<and>
               objs st' (Obj b) = Some fa \<and> get_hnd (objs st') (Obj b) = Some h \<and>
               get_hnd (objs st') (Obj a) = None \<and> objs st' (Obj a) = Some file_mutex_default \<and>
               (\<forall>c. c \<noteq> Obj a \<and> c \<noteq> Obj b \<and> c \<noteq> Temp \<longrightarrow> objs st' c = objs st c) \<and>
               host st' = file_lock_dtor (m_file_lock fb) (host st) \<and>
               (\<forall>rq. map_option (\<lambda>(r, s). (r, host s)) (exec (Call b rq) st') =
                     file_mutex_call rq fa (host st'))))"
proof (intro conjI allI impI)
  assume nb: "\<not> live st b"
  then have ne: "Obj b \<noteq> Obj a" using assms by (auto simp: live_def)
  define st' where "st' = st\<lparr>objs := file_mutex_move_ctor (Obj b) (Obj a) (objs st)\<rparr>"
  have o: "objs st' = (objs st)(Obj b \<mapsto> fa, Obj a \<mapsto> file_mutex_default)"
    using assms ne by (simp add: st'_def move_ctor_store)
  have "exec (Move_construct b a) st = Some (Done, st')"
    using nb assms by (simp add: st'_def live_def)
  moreover have "objs st' (Obj b) = Some fa" "objs st' (Obj a) = Some file_mutex_default"
    using ne by (simp_all add: o)
  moreover have "get_hnd (objs st') (Obj b) = Some h" "get_hnd (objs st') (Obj a) = None"
    using ne assms by (simp_all add: o get_hnd_def file_mutex_default_def file_lock_default_def)
  moreover have "\<forall>c. c \<noteq> Obj a \<and> c \<noteq> Obj b \<longrightarrow> objs st' c = objs st c"
    by (simp add: o)
  moreover have hs: "host st' = host st" by (simp add: st'_def)
  moreover have "\<forall>rq. map_option (\<lambda>(r, s). (r, host s)) (exec (Call b rq) st') =
                     map_option (\<lambda>(r, s). (r, host s)) (exec (Call a rq) st)"
    using ne assms by (simp add: o hs option.map_comp comp_def split_def)
  ultimately show "\<exists>st'. exec (Move_construct b a) st = Some (Done, st') \<and>
               objs st' (Obj b) = Some fa \<and> get_hnd (objs st') (Obj b) = Some h \<and>
               get_hnd (objs st') (Obj a) = None \<and> objs st' (Obj a) = Some file_mutex_default \<and>
               (\<forall>c. c \<noteq> Obj a \<and> c \<noteq> Obj b \<longrightarrow> objs st' c = objs st c) \<and>
               host st' = host st \<and>
               (\<forall>rq. map_option (\<lambda>(r, s). (r, host s)) (exec (Call b rq) st') =
                     map_option (\<lambda>(r, s). (r, host s)) (exec (Call a rq) st))"
    by blast
next
  fix fb
  assume b: "objs st (Obj b) = Some fb \<and> a \<noteq> b"
  define st' where "st' = file_mutex_move_assign (Obj b) (Obj a) st"
  have e: "st' = \<lparr>objs = (objs st)(Obj a \<mapsto> file_mutex_default, Obj b \<mapsto> fa, Temp := None),
            host = file_lock_dtor (m_file_lock fb) (host st)\<rparr>"
    unfolding st'_def using b assms by (intro move_assign_state) auto
  have "exec (Move_assign b a) st = Some (Done, st')"
    using b assms by (simp add: st'_def live_def)
  moreover have "objs st' (Obj b) = Some fa" "objs st' (Obj a) = Some file_mutex_default"
    using b by (simp_all add: e)
  moreover have "get_hnd (objs st') (Obj b) = Some h" "get_hnd (objs st') (Obj a) = None"
    using b assms by (simp_all add: e get_hnd_def file_mutex_default_def file_lock_default_def)
  moreover have "\<forall>c. c \<noteq> Obj a \<and> c \<noteq> Obj b \<and> c \<noteq> Temp \<longrightarrow> objs st' c = objs st c"
    by (simp add: e)
  moreover have "host st' = file_lock_dtor (m_file_lock fb) (host st)" by (simp add: e)
  moreover have "\<forall>rq. map_option (\<lambda>(r, s). (r, host s)) (exec (Call b rq) st') =
                     file_mutex_call rq fa (host st')"
    using b by (simp add: e option.map_comp comp_def split_def option.map_ident)
  ultimately show "\<exists>st'. exec (Move_assign b a) st = Some (Done, st') \<and>
               objs st' (Obj b) = Some fa \<and> get_hnd (objs st') (Obj b) = Some h \<and>
               get_hnd (objs st') (Obj a) = None \<and> objs st' (Obj a) = Some file_mutex_default \<and>
               (\<forall>c. c \<noteq> Obj a \<and> c \<noteq> Obj b \<and> c \<noteq> Temp \<longrightarrow> objs st' c = objs st c) \<and>
               host st' = file_lock_dtor (m_file_lock fb) (host st) \<and>
               (\<forall>rq. map_option (\<lambda>(r, s). (r, host s)) (exec (Call b rq) st') =
                     file_mutex_call rq fa (host st'))"
    by blast
qed

theorem move_transfers_ownership_witness:
  "objs two (Obj 0) = Some fm_a \<and> m_file_hnd (m_file_lock fm_a) = Some 1 \<and>
   \<not> live two 2 \<and> objs two (Obj 1) = Some fm_b \<and>
   (\<exists>st'. exec (Move_construct 2 0) two = Some (Done, st') \<and>
      get_hnd (objs st') (Obj 2) = Some 1 \<and> get_hnd (objs st') (Obj 0) = None \<and>
      host st' = host2) \<and>
   (\<exists>st'. exec (Move_assign 1 0) two = Some (Done, st') \<and>
      get_hnd (objs st') (Obj 1) = Some 1 \<and> get_hnd (objs st') (Obj 0) = None \<and>
      handles (host st') 3 = None \<and> handles (host st') 1 = Some ''data.lock'' \<and>
      locks (host st') = [])"
proof -
  have a: "objs two (Obj 0) = Some fm_a" and h: "m_file_hnd (m_file_lock fm_a) = Some 1"
    and n: "\<not> live two 2" and b: "objs two (Obj 1) = Some fm_b"
    by (simp_all add: two_def fm_a_def live_def)
  have d: "file_lock_dtor (m_file_lock fm_b) (host two) =
             host2\<lparr>handles := (handles host2)(3 := None), locks := []\<rparr>"
    by (simp add: two_def fm_b_def host2_def file_lock_dtor_def close_file_def)
  have ht: "host two = host2"
    by (simp add: two_def)
  note m = move_transfers_ownership [OF a h]
  from m [of 2] n obtain s1 where "exec (Move_construct 2 0) two = Some (Done, s1)"
    and "get_hnd (objs s1) (Obj 2) = Some 1" and "get_hnd (objs s1) (Obj 0) = None"
    and "host s1 = host two"
    by blast
  with ht have 1: "\<exists>st'. exec (Move_construct 2 0) two = Some (Done, st') \<and>
      get_hnd (objs st') (Obj 2) = Some 1 \<and> get_hnd (objs st') (Obj 0) = None \<and>
      host st' = host2"
    by metis
  have ne: "(0::nat) \<noteq> 1"
    by simp
  from m [of 1] b ne obtain s2 where "exec (Move_assign 1 0) two = Some (Done, s2)"
    and "get_hnd (objs s2) (Obj 1) = Some 1" and "get_hnd (objs s2) (Obj 0) = None"
    and "host s2 = file_lock_dtor (m_file_lock fm_b) (host two)"
    by blast
  moreover from this d have "handles (host s2) 3 = None"
    and "handles (host s2) 1 = Some ''data.lock''" and "locks (host s2) = []"
    by (simp_all add: host2_def)
  ultimately have 2: "\<exists>st'. exec (Move_assign 1 0) two = Some (Done, st') \<and>
      get_hnd (objs st') (Obj 1) = Some 1 \<and> get_hnd (objs st') (Obj 0) = None \<and>
      handles (host st') 3 = None \<and> handles (host st') 1 = Some ''data.lock'' \<and>
      locks (host st') = []"
    by metis
  from a h n b 1 2 show ?thesis by blast
qed

text \<open>
  C5: at most one instance owns a given handle. A program starts with no object; it can
  construct, move, swap, lock, unlock, destroy and remove, and it cannot copy. Every
  step keeps the invariant that no handle is owned by two objects and that every owned
  handle is open, so after any sequence of steps two objects never own the same handle,
  and a destructor always closes a handle that is still open: none is released twice.
\<close>

theorem single_owner_invariant:
  "(handles_issued os \<longrightarrow> ownership_inv \<lparr>objs = Map.empty, host = os\<rparr>) \<and>
   (ownership_inv st \<and> exec x st = Some (r, st') \<longrightarrow> ownership_inv st') \<and>
   (ownership_inv st \<and> run xs st = Some st'' \<longrightarrow>
      (\<forall>a b h. get_hnd (objs st'') a = Some h \<and> get_hnd (objs st'') b = Some h \<longrightarrow> a = b) \<and>
      (\<forall>a h. get_hnd (objs st'') a = Some h \<longrightarrow> handles (host st'') h \<noteq> None))"
proof (intro conjI impI)
  assume "ownership_inv st \<and> run xs st = Some st''"
  then have "ownership_inv st''" by (auto dest: run_preserves_inv)
  then show "\<forall>a b h. get_hnd (objs st'') a = Some h \<and> get_hnd (objs st'') b = Some h \<longrightarrow> a = b"
    and "\<forall>a h. get_hnd (objs st'') a = Some h \<longrightarrow> handles (host st'') h \<noteq> None"
    by (simp_all add: ownership_inv_def single_owner_def owned_open_def)
qed (auto intro: inv_initial exec_preserves_inv)

theorem single_owner_invariant_witness:
  "handles_issued host0 \<and> ownership_inv start \<and>
   (\<exists>st. exec (Construct 0 ''data'' ''.lock'') start = Some (Done, st) \<and>
      get_hnd (objs st) (Obj 0) = Some 1 \<and> ownership_inv st) \<and>
   (\<exists>st. run session start = Some st \<and>
      get_hnd (objs st) (Obj 2) = Some 1 \<and> objs st (Obj 1) = None \<and>
      get_hnd (objs st) (Obj 0) = None \<and> get_hnd (objs st) (Obj 3) = None \<and>
      handles (host st) 1 = Some ''data.lock'' \<and> handles (host st) 3 = None \<and>
      single_owner st \<and> owned_open st)"
proof -
  have i: "handles_issued host0"
    by (simp add: handles_issued_def host0_def)
  have "\<exists>st. exec (Construct 0 ''data'' ''.lock'') start = Some (Done, st) \<and>
      get_hnd (objs st) (Obj 0) = Some 1"
    by (simp add: run_defs)
  then obtain s1 where x: "exec (Construct 0 ''data'' ''.lock'') start = Some (Done, s1)"
    and g: "get_hnd (objs s1) (Obj 0) = Some 1"
    by blast
  have "\<exists>st. run session start = Some st \<and>
      get_hnd (objs st) (Obj 2) = Some 1 \<and> objs st (Obj 1) = None \<and>
      get_hnd (objs st) (Obj 0) = None \<and> get_hnd (objs st) (Obj 3) = None \<and>
      handles (host st) 1 = Some ''data.lock'' \<and> handles (host st) 3 = None"
    by (simp add: session_def run_defs)
  then obtain st where r: "run session start = Some st"
    and f: "get_hnd (objs st) (Obj 2) = Some 1" "objs st (Obj 1) = None"
      "get_hnd (objs st) (Obj 0) = None" "get_hnd (objs st) (Obj 3) = None"
      "handles (host st) 1 = Some ''data.lock''" "handles (host st) 3 = None"
    by blast
  note t = single_owner_invariant
    [where os = host0 and st = start and x = "Construct 0 ''data'' ''.lock''" and r = Done
      and st' = s1 and xs = session and st'' = st]
  from t i have s: "ownership_inv start"
    by (simp add: start_def)
  with t x have 1: "ownership_inv s1"
    by blast
  from t s r have 2: "single_owner st \<and> owned_open st"
    unfolding single_owner_def owned_open_def by blast
  from i s x g 1 r f 2 show ?thesis by blast
qed

text \<open>
  C6: let the instance own an open handle \<open>h\<close>. For every deadline \<open>t\<close>,
  \<open>timed_lock(t)\<close> returns, and it returns true or false. If true, \<open>h\<close> holds the lock
  exclusively and it was taken at an instant before \<open>t\<close>. If false, the deadline has
  been reached and the lock table is as it was: nothing was acquired. So for a caller
  that did not hold the lock, the result is true exactly when it holds it afterwards;
  and the result is true exactly when there is an instant before the deadline, not
  earlier than the call, at which no other holder stands in the way.
  \<open>timed_lock_sharable\<close> has the same property for sharable ownership.
\<close>

theorem timed_lock_reports_ownership:
  assumes "m_file_hnd (m_file_lock fm) = Some h" and "handles os h \<noteq> None"
  shows "(\<exists>r os'. file_mutex_timed_lock fm t os = (Inr r, os') \<and>
            (r \<longrightarrow> owns os' h Exclusive \<and> now os' < t) \<and>
            (\<not> r \<longrightarrow> locks os' = locks os \<and> t \<le> now os') \<and>
            (\<not> owns os h Exclusive \<longrightarrow> r = owns os' h Exclusive) \<and>
            (r \<longleftrightarrow> (\<exists>u. now os \<le> u \<and> u < t \<and>
                    \<not> conflicts (os\<lparr>now := u\<rparr>) h Exclusive))) \<and>
         (\<exists>r os'. file_mutex_timed_lock_sharable fm t os = (Inr r, os') \<and>
            (r \<longrightarrow> owns os' h Sharable \<and> now os' < t) \<and>
            (\<not> r \<longrightarrow> locks os' = locks os \<and> t \<le> now os') \<and>
            (\<not> owns os h Sharable \<longrightarrow> r = owns os' h Sharable) \<and>
            (r \<longleftrightarrow> (\<exists>u. now os \<le> u \<and> u < t \<and>
                    \<not> conflicts (os\<lparr>now := u\<rparr>) h Sharable)))"
  unfolding file_mutex_timed_lock_def file_mutex_timed_lock_sharable_def
    file_lock_timed_lock_def file_lock_timed_lock_sharable_def
  using file_lock_timed_acquire_sound [OF assms] by blast

theorem timed_lock_reports_ownership_witness:
  "m_file_hnd (m_file_lock fm1) = Some 0 \<and> handles host1 0 \<noteq> None \<and>
   fst (file_mutex_timed_lock fm1 10 host1) = Inr True \<and>
   now (snd (file_mutex_timed_lock fm1 10 host1)) = 5 \<and>
   owns (snd (file_mutex_timed_lock fm1 10 host1)) 0 Exclusive \<and>
   fst (file_mutex_timed_lock fm1 3 host1) = Inr False \<and>
   locks (snd (file_mutex_timed_lock fm1 3 host1)) = locks host1 \<and>
   \<not> owns (snd (file_mutex_timed_lock fm1 3 host1)) 0 Exclusive \<and>
   fst (file_mutex_timed_lock_sharable fm1 5 host1) = Inr False \<and>
   fst (file_mutex_timed_lock_sharable fm1 6 host1) = Inr True \<and>
   owns (snd (file_mutex_timed_lock_sharable fm1 6 host1)) 0 Sharable"
proof -
  note defs = file_mutex_timed_lock_def file_lock_timed_lock_def
    file_mutex_timed_lock_sharable_def file_lock_timed_lock_sharable_def
    file_lock_timed_acquire_def with_handle_def fm1_def host1_def conflicts_def active_def
    tick_def grant_def timed_acquire.simps
  have h: "m_file_hnd (m_file_lock fm1) = Some 0" and o: "handles host1 0 \<noteq> None"
    by (simp_all add: fm1_def host1_def)
  have n: "\<not> owns host1 0 Exclusive"
    by (simp add: owns_def host1_def)
  have a: "fst (file_mutex_timed_lock fm1 10 host1) = Inr True"
    and b: "now (snd (file_mutex_timed_lock fm1 10 host1)) = 5"
    and c: "fst (file_mutex_timed_lock fm1 3 host1) = Inr False"
    and d: "fst (file_mutex_timed_lock_sharable fm1 5 host1) = Inr False"
    and e: "fst (file_mutex_timed_lock_sharable fm1 6 host1) = Inr True"
    by (simp_all add: defs)
  note t = timed_lock_reports_ownership [OF h o]
  from t [of 10] a have 1: "owns (snd (file_mutex_timed_lock fm1 10 host1)) 0 Exclusive"
    by auto
  from t [of 3] c n have 2: "locks (snd (file_mutex_timed_lock fm1 3 host1)) = locks host1"
    and 3: "\<not> owns (snd (file_mutex_timed_lock fm1 3 host1)) 0 Exclusive"
    by auto
  from t [of 6] e have 4: "owns (snd (file_mutex_timed_lock_sharable fm1 6 host1)) 0 Sharable"
    by auto
  from h o a b c d e 1 2 3 4 show ?thesis by blast
qed

text \<open>
  C7: \<open>remove(path)\<close> returns true exactly when the file existed and is gone afterwards,
  and false exactly when it did not exist, which is a result and not an error; a second call
  right after a successful one returns false; a failure other than non-existence raises
  \<open>filesystem_error\<close> and no boolean is returned; and unless the file was removed the
  host is unchanged.
\<close>

theorem remove_result:
  "file_mutex_remove p os = (r, os') \<Longrightarrow>
     (r = Inr True \<longleftrightarrow> files os p \<noteq> None \<and> files os' p = None) \<and>
     (r = Inr False \<longleftrightarrow> files os p = None) \<and>
     (r = Inl filesystem_error \<longleftrightarrow> files os p \<noteq> None \<and> p \<in> denied os) \<and>
     (r = Inr True \<or> r = Inr False \<or> r = Inl filesystem_error) \<and>
     (r = Inr True \<longrightarrow> file_mutex_remove p os' = (Inr False, os')) \<and>
     (r \<noteq> Inr True \<longrightarrow> os' = os)"
proof (cases "files os p")
  case None
  assume "file_mutex_remove p os = (r, os')"
  with None have "r = Inr False" and "os' = os"
    by (simp_all add: file_mutex_remove_def filesystem_remove_def)
  with None show ?thesis by simp
next
  case (Some c)
  assume call: "file_mutex_remove p os = (r, os')"
  show ?thesis
  proof (cases "p \<in> denied os")
    case True
    with Some call have "r = Inl filesystem_error" and "os' = os"
      by (simp_all add: file_mutex_remove_def filesystem_remove_def)
    with Some True show ?thesis by simp
  next
    case False
    with Some call have "r = Inr True" and "os' = os\<lparr>files := (files os)(p := None)\<rparr>"
      by (simp_all add: file_mutex_remove_def filesystem_remove_def)
    with Some False show ?thesis
      by (simp add: file_mutex_remove_def filesystem_remove_def)
  qed
qed

theorem remove_result_witness:
  "file_mutex_remove ''data.lock'' host0 =
     (Inr True, snd (file_mutex_remove ''data.lock'' host0)) \<and>
   files host0 ''data.lock'' \<noteq> None \<and>
   files (snd (file_mutex_remove ''data.lock'' host0)) ''data.lock'' = None \<and>
   file_mutex_remove ''data.lock'' (snd (file_mutex_remove ''data.lock'' host0)) =
     (Inr False, snd (file_mutex_remove ''data.lock'' host0)) \<and>
   file_mutex_remove ''none.lock'' host0 = (Inr False, host0) \<and>
   files host0 ''none.lock'' = None \<and>
   file_mutex_remove ''data'' (host0\<lparr>denied := {''data''}\<rparr>) =
     (Inl filesystem_error, host0\<lparr>denied := {''data''}\<rparr>) \<and>
   ''data'' \<in> denied (host0\<lparr>denied := {''data''}\<rparr>)"
proof -
  have e: "file_mutex_remove ''data.lock'' host0 =
     (Inr True, snd (file_mutex_remove ''data.lock'' host0))"
    by (simp add: file_mutex_remove_def filesystem_remove_def host0_def)
  have f: "file_mutex_remove ''none.lock'' host0 = (Inr False, host0)"
    by (simp add: file_mutex_remove_def filesystem_remove_def host0_def)
  have g: "file_mutex_remove ''data'' (host0\<lparr>denied := {''data''}\<rparr>) =
     (Inl filesystem_error, host0\<lparr>denied := {''data''}\<rparr>)"
    by (simp add: file_mutex_remove_def filesystem_remove_def host0_def)
  from remove_result [OF e] have 1: "files host0 ''data.lock'' \<noteq> None"
    and 2: "files (snd (file_mutex_remove ''data.lock'' host0)) ''data.lock'' = None"
    and 3: "file_mutex_remove ''data.lock'' (snd (file_mutex_remove ''data.lock'' host0)) =
              (Inr False, snd (file_mutex_remove ''data.lock'' host0))"
    by simp_all
  from remove_result [OF f] have 4: "files host0 ''none.lock'' = None"
    by simp
  from remove_result [OF g] have 5: "''data'' \<in> denied (host0\<lparr>denied := {''data''}\<rparr>)"
    by blast
  from e 1 2 3 f 4 g 5 show ?thesis by blast
qed

text \<open>
  C8 is about instances at work at the same time in several processes or threads: at
  most one of them holds the file exclusively at any instant, and sharable holders exclude
  only an exclusive one. Which claims may stand side by side is decided by the advisory
  locking of the host, behind \<open>file_lock\<close>; the header adds nothing to it, and it
  warns that a file mutex does not synchronise the threads of one process. The programs
  of this development are sequential, one step after another, with the other parties
  present only as entries of the lock table, so the claim is left unstated.
\<close>

text \<open>
  C9: for every target path and suffix, construction leaves the contents of a lock file
  that exists as they are, creates a missing one, empty, where the host allows it, and
  touches no other file, whether or not it then succeeds: the stream is opened in append
  mode. The stream is closed at once: on a host whose handles are all issued, the only
  handle that construction leaves open is the one the new instance owns.
\<close>

theorem ctor_keeps_contents:
  "file_mutex_ctor p s os = (r, os') \<Longrightarrow>
     (\<forall>c. files os (p @ s) = Some c \<longrightarrow> files os' (p @ s) = Some c) \<and>
     (files os (p @ s) = None \<longrightarrow>
        files os' (p @ s) = (if p @ s \<in> denied os then None else Some [])) \<and>
     (\<forall>q. q \<noteq> p @ s \<longrightarrow> files os' q = files os q) \<and>
     (handles_issued os \<longrightarrow>
        (case r of
           Inl e \<Rightarrow> handles os' = handles os
         | Inr fm \<Rightarrow> \<exists>h. m_file_hnd (m_file_lock fm) = Some h \<and> handles os h = None \<and>
              handles os' = (handles os)(h \<mapsto> p @ s)))"
proof (intro conjI allI impI)
  assume e: "file_mutex_ctor p s os = (r, os')" and i: "handles_issued os"
  have n: "handles os (next_handle os) = None" "handles os (Suc (next_handle os)) = None"
    using i by (simp_all add: issued_fresh)
  from n(1) have "(handles os)(next_handle os := None) = handles os"
    by (simp add: fun_upd_idem)
  with e n show "case r of
           Inl e \<Rightarrow> handles os' = handles os
         | Inr fm \<Rightarrow> \<exists>h. m_file_hnd (m_file_lock fm) = Some h \<and> handles os h = None \<and>
              handles os' = (handles os)(h \<mapsto> p @ s)"
    by (auto simp: file_mutex_ctor_def create_file_lock_eq build_file_lock_path_def
          split: if_splits)
qed (auto simp: file_mutex_ctor_def create_file_lock_eq build_file_lock_path_def
       split: if_splits)

theorem ctor_keeps_contents_witness:
  "files host0 ''data'' = Some ''payload'' \<and> handles_issued host0 \<and>
   fst (file_mutex_ctor ''data'' [] host0) = Inr fm_a \<and>
   files (snd (file_mutex_ctor ''data'' [] host0)) ''data'' = Some ''payload'' \<and>
   files (snd (file_mutex_ctor ''data'' [] host0)) ''data.lock'' = Some [] \<and>
   handles (snd (file_mutex_ctor ''data'' [] host0)) = [1 \<mapsto> ''data''] \<and>
   files host0 ''data.new'' = None \<and>
   files (snd (file_mutex_ctor ''data'' ''.new'' host0)) ''data.new'' = Some [] \<and>
   files host0 ''ro.lock'' = None \<and> ''ro.lock'' \<in> denied host0 \<and>
   files (snd (file_mutex_ctor ''ro'' ''.lock'' host0)) ''ro.lock'' = None"
proof -
  have e: "file_mutex_ctor ''data'' [] host0 =
             (Inr fm_a, snd (file_mutex_ctor ''data'' [] host0))"
    by (simp add: fm_a_def run_defs)
  have f: "files host0 ''data'' = Some ''payload''" "files host0 ''data.lock'' = Some []"
    "files host0 ''data.new'' = None" "files host0 ''ro.lock'' = None"
    and d: "''ro.lock'' \<in> denied host0" "''data.new'' \<notin> denied host0"
    and i: "handles_issued host0" and h: "handles host0 = Map.empty"
    by (simp_all add: host0_def handles_issued_def)
  from ctor_keeps_contents [OF e] f i h
  have 1: "files (snd (file_mutex_ctor ''data'' [] host0)) ''data'' = Some ''payload''"
    and 2: "files (snd (file_mutex_ctor ''data'' [] host0)) ''data.lock'' = Some []"
    and 3: "handles (snd (file_mutex_ctor ''data'' [] host0)) = [1 \<mapsto> ''data'']"
    by (auto simp: fm_a_def)
  have "file_mutex_ctor ''data'' ''.new'' host0 =
          (fst (file_mutex_ctor ''data'' ''.new'' host0),
           snd (file_mutex_ctor ''data'' ''.new'' host0))"
    by simp
  from ctor_keeps_contents [OF this] f d
  have 4: "files (snd (file_mutex_ctor ''data'' ''.new'' host0)) ''data.new'' = Some []"
    by simp
  have "file_mutex_ctor ''ro'' ''.lock'' host0 =
          (fst (file_mutex_ctor ''ro'' ''.lock'' host0),
           snd (file_mutex_ctor ''ro'' ''.lock'' host0))"
    by simp
  from ctor_keeps_contents [OF this] f d
  have 5: "files (snd (file_mutex_ctor ''ro'' ''.lock'' host0)) ''ro.lock'' = None"
    by simp
  from e have 6: "fst (file_mutex_ctor ''data'' [] host0) = Inr fm_a"
    by (metis fst_conv)
  from f i d 1 2 3 4 5 6 show ?thesis by blast
qed

text \<open>
  C10: for two live instances \<open>a\<close> and \<open>b\<close>, \<open>swap\<close> leaves \<open>a\<close> with the handle of
  \<open>b\<close> and \<open>b\<close> with the handle of \<open>a\<close>, and changes neither another object nor the
  host; swapping again gives back the state before the first swap; and swapping an
  instance with itself changes nothing.
\<close>

theorem swap_exchanges_handles:
  assumes "live st a" and "live st b"
  shows "\<exists>st'. exec (Swap a b) st = Some (Done, st') \<and>
           get_hnd (objs st') (Obj a) = get_hnd (objs st) (Obj b) \<and>
           get_hnd (objs st') (Obj b) = get_hnd (objs st) (Obj a) \<and>
           (\<forall>c. c \<noteq> Obj a \<and> c \<noteq> Obj b \<longrightarrow> objs st' c = objs st c) \<and>
           host st' = host st \<and>
           exec (Swap a b) st' = Some (Done, st) \<and>
           exec (Swap a a) st = Some (Done, st)"
proof -
  from assms have la: "objs st (Obj a) \<noteq> None" and lb: "objs st (Obj b) \<noteq> None"
    by (simp_all add: live_def)
  define st' where "st' = st\<lparr>objs := file_mutex_swap (Obj a) (Obj b) (objs st)\<rparr>"
  have l': "live st' a" "live st' b"
    using la lb by (simp_all add: st'_def live_def swap_None_iff)
  have again: "file_mutex_swap (Obj a) (Obj b) (objs st') = objs st"
    using la lb by (auto simp: st'_def swap_store)
  have self: "file_mutex_swap (Obj a) (Obj a) (objs st) = objs st"
    using la by (simp add: swap_store)
  have "exec (Swap a b) st = Some (Done, st')"
    using assms by (simp add: st'_def)
  moreover have "get_hnd (objs st') (Obj a) = get_hnd (objs st) (Obj b)"
    and "get_hnd (objs st') (Obj b) = get_hnd (objs st) (Obj a)"
    using la lb by (simp_all add: st'_def get_hnd_swap)
  moreover have "\<forall>c. c \<noteq> Obj a \<and> c \<noteq> Obj b \<longrightarrow> objs st' c = objs st c"
    by (simp add: st'_def swap_other)
  moreover have "host st' = host st" by (simp add: st'_def)
  moreover have "exec (Swap a b) st' = Some (Done, st)"
    using l' again by (simp add: st'_def)
  moreover have "exec (Swap a a) st = Some (Done, st)"
    using assms self by simp
  ultimately show ?thesis by blast
qed

theorem swap_exchanges_handles_witness:
  "live two 0 \<and> live two 1 \<and>
   get_hnd (objs two) (Obj 0) = Some 1 \<and> get_hnd (objs two) (Obj 1) = Some 3 \<and>
   (\<exists>st'. exec (Swap 0 1) two = Some (Done, st') \<and>
      get_hnd (objs st') (Obj 0) = Some 3 \<and> get_hnd (objs st') (Obj 1) = Some 1 \<and>
      host st' = host two \<and> exec (Swap 0 1) st' = Some (Done, two)) \<and>
   exec (Swap 0 0) two = Some (Done, two)"
proof -
  have l: "live two 0" "live two 1"
    and g: "get_hnd (objs two) (Obj 0) = Some 1" "get_hnd (objs two) (Obj 1) = Some 3"
    by (simp_all add: two_def live_def get_hnd_def fm_a_def fm_b_def)
  from swap_exchanges_handles [OF l] g l show ?thesis
    by metis
qed


end
